theory Spec2Isabelle
  imports Complex_Main "HOL-Library.Multiset"
begin

section \<open>The order book of \<open>src/src/orderbook.py\<close>\<close>

text \<open>
  The class \<open>BybitOrderBook\<close> keeps two lists of levels \<open>[price, quantity]\<close>, one per side,
  under a \<open>threading.Lock\<close>. The model is sequential: it follows one thread through the
  methods, with the book passed explicitly and returned updated.

  Numbers. The code turns every token of the feed into a Python \<open>float\<close>. A finite float
  is the rational number it denotes, so prices and quantities are of type \<open>rat\<close>, with
  exact equality and order, as \<open>==\<close> and \<open><\<close> are on finite floats. Text that \<open>float()\<close>
  maps to \<open>nan\<close> or to an infinity is outside the model.
\<close>

type_synonym level = "rat \<times> rat"

text \<open>
  A raw token of the feed, by what \<open>float()\<close> does with it: \<open>Decimal r\<close> is text that
  \<open>float()\<close> accepts, with value \<open>r\<close> (such as \<open>"100.5"\<close> for \<open>Decimal (201/2)\<close>);
  \<open>Malformed\<close> is text for which \<open>float()\<close> raises \<open>ValueError\<close> (such as \<open>"abc"\<close>).
\<close>

datatype token = Decimal rat | Malformed

datatype error = ValueError

fun float_py :: "token \<Rightarrow> error + rat" where
  "float_py (Decimal r) = Inr r"
| "float_py Malformed = Inl ValueError"

text \<open>
  What a call does: it returns, it raises, or it waits on the lock for ever
  (\<open>threading.Lock\<close> is not reentrant, and \<open>acquire\<close> has no timeout here).
\<close>

datatype 'a outcome = Returned 'a | Raised error | Blocked

datatype side = Bids | Asks

datatype log_entry =
    Info_initialized
  | Info_received
  | Warning_empty_data
  | Warning_unknown_type
  | Info_updated nat nat
  | Info_returning nat nat

text \<open>
  The \<open>data\<close> object of a message: the entries \<open>"b"\<close> and \<open>"a"\<close>, each absent or a list of
  pairs of tokens, and the names of the other keys it holds (\<open>"s"\<close>, \<open>"u"\<close>, \<open>"seq"\<close>
  on the exchange's feed).
\<close>

record data =
  data_b :: "(token \<times> token) list option"
  data_a :: "(token \<times> token) list option"
  data_other :: "string list"

text \<open>A message: \<open>message.get("type")\<close> and the \<open>"data"\<close> entry, \<open>None\<close> when absent.\<close>

record message =
  msg_type :: "string option"
  msg_data :: "data option"

text \<open>
  The fields of \<open>BybitOrderBook\<close> that the update logic reads or writes. \<open>order_book\<close> is
  the two fields \<open>bids\<close> and \<open>asks\<close>; \<open>lock\<close> is true while the lock is held; \<open>logged\<close> is
  what was sent to the logger, oldest first.
\<close>

record book =
  depth :: int
  bids :: "level list"
  asks :: "level list"
  lock :: bool
  logged :: "log_entry list"

definition logger :: "log_entry \<Rightarrow> book \<Rightarrow> book" where
  "logger e s = s\<lparr>logged := logged s @ [e]\<rparr>"

text \<open>\<open>__init__\<close>: both sides empty, the lock free.\<close>

definition book_init :: "int \<Rightarrow> book" where
  "book_init d = \<lparr>depth = d, bids = [], asks = [], lock = False, logged = [Info_initialized]\<rparr>"

fun get_side :: "side \<Rightarrow> book \<Rightarrow> level list" where
  "get_side Bids s = bids s"
| "get_side Asks s = asks s"

fun set_side :: "side \<Rightarrow> level list \<Rightarrow> book \<Rightarrow> book" where
  "set_side Bids xs s = s\<lparr>bids := xs\<rparr>"
| "set_side Asks xs s = s\<lparr>asks := xs\<rparr>"

subsection \<open>\<open>_update_side\<close>\<close>

text \<open>
  The \<open>for ... else\<close> loop of \<open>_update_side\<close>: at the first level with the price, pop it
  when the quantity is 0 and overwrite it otherwise, then \<open>break\<close>; when the loop ends
  without a \<open>break\<close>, append the level if the quantity is positive.
\<close>

fun scan_side :: "rat \<Rightarrow> rat \<Rightarrow> level list \<Rightarrow> level list" where
  "scan_side price quantity [] = (if quantity > 0 then [(price, quantity)] else [])"
| "scan_side price quantity ((existing_price, q) # rest) =
     (if existing_price = price
      then (if quantity = 0 then rest else (price, quantity) # rest)
      else (existing_price, q) # scan_side price quantity rest)"

text \<open>
  \<open>sorted(book_side, key=lambda x: x[0], reverse=...)\<close>. Python's sort is stable, also
  with \<open>reverse=True\<close>, which sorts the reversed list and reverses the result.
\<close>

definition sorted_py :: "bool \<Rightarrow> level list \<Rightarrow> level list" where
  "sorted_py reverse xs = (if reverse then rev (sort_key fst (rev xs)) else sort_key fst xs)"

text \<open>The slice \<open>xs[:d]\<close>: a negative \<open>d\<close> counts from the end.\<close>

definition slice_to :: "int \<Rightarrow> 'a list \<Rightarrow> 'a list" where
  "slice_to d xs = (if 0 \<le> d then take (nat d) xs else take (length xs - nat (- d)) xs)"

definition update_side :: "side \<Rightarrow> rat \<Rightarrow> rat \<Rightarrow> book \<Rightarrow> book" where
  "update_side sd price quantity s =
     (let book_side = scan_side price quantity (get_side sd s);
          s1 = set_side sd (sorted_py (sd = Bids) book_side) s
      in set_side sd (slice_to (depth s1) (get_side sd s1)) s1)"

subsection \<open>The lock\<close>

text \<open>
  \<open>with self.lock: body\<close>. Acquiring a lock that is held never returns. The lock is
  released when the body returns and when it raises, not when it blocks.
\<close>

definition with_lock :: "(book \<Rightarrow> 'a outcome \<times> book) \<Rightarrow> book \<Rightarrow> 'a outcome \<times> book" where
  "with_lock body s =
     (if lock s then (Blocked, s)
      else (case body (s\<lparr>lock := True\<rparr>) of
              (Blocked, s') \<Rightarrow> (Blocked, s')
            | (r, s') \<Rightarrow> (r, s'\<lparr>lock := False\<rparr>)))"

subsection \<open>\<open>_update_order_book\<close>\<close>

text \<open>One of the two \<open>for price, quantity in ...\<close> loops: a token that does not parse
  raises out of the loop, after the pairs before it have been applied.\<close>

fun update_levels :: "side \<Rightarrow> (token \<times> token) list \<Rightarrow> book \<Rightarrow> unit outcome \<times> book" where
  "update_levels sd [] s = (Returned (), s)"
| "update_levels sd ((price, quantity) # rest) s =
     (case float_py price of
        Inl e \<Rightarrow> (Raised e, s)
      | Inr p \<Rightarrow>
          (case float_py quantity of
             Inl e \<Rightarrow> (Raised e, s)
           | Inr q \<Rightarrow> update_levels sd rest (update_side sd p q s)))"

definition update_order_book ::
  "(token \<times> token) list \<Rightarrow> (token \<times> token) list \<Rightarrow> book \<Rightarrow> unit outcome \<times> book" where
  "update_order_book bs as s =
     with_lock (\<lambda>s. case update_levels Bids bs s of
                      (Returned u, s1) \<Rightarrow> update_levels Asks as s1
                    | (r, s1) \<Rightarrow> (r, s1)) s"

subsection \<open>\<open>handle_message\<close>\<close>

text \<open>The list comprehension \<open>[[float(price), float(quantity)] for price, quantity in ...]\<close>.\<close>

fun parse_levels :: "(token \<times> token) list \<Rightarrow> error + level list" where
  "parse_levels [] = Inr []"
| "parse_levels ((price, quantity) # rest) =
     (case float_py price of
        Inl e \<Rightarrow> Inl e
      | Inr p \<Rightarrow>
          (case float_py quantity of
             Inl e \<Rightarrow> Inl e
           | Inr q \<Rightarrow>
               (case parse_levels rest of
                  Inl e \<Rightarrow> Inl e
                | Inr ls \<Rightarrow> Inr ((p, q) # ls))))"

text \<open>\<open>message.get("data", {})\<close>, \<open>not data\<close>, \<open>data.get("b", [])\<close> and \<open>data.get("a", [])\<close>.\<close>

definition empty_data :: data where
  "empty_data = \<lparr>data_b = None, data_a = None, data_other = []\<rparr>"

definition get_data :: "message \<Rightarrow> data" where
  "get_data m = (case msg_data m of None \<Rightarrow> empty_data | Some d \<Rightarrow> d)"

definition not_data :: "data \<Rightarrow> bool" where
  "not_data d \<longleftrightarrow> data_b d = None \<and> data_a d = None \<and> data_other d = []"

definition get_b :: "data \<Rightarrow> (token \<times> token) list" where
  "get_b d = (case data_b d of None \<Rightarrow> [] | Some ps \<Rightarrow> ps)"

definition get_a :: "data \<Rightarrow> (token \<times> token) list" where
  "get_a d = (case data_a d of None \<Rightarrow> [] | Some ps \<Rightarrow> ps)"

text \<open>The body of \<open>with self.lock\<close> in \<open>handle_message\<close>: the side assigned first stays
  assigned when the second comprehension raises.\<close>

definition handle_locked :: "message \<Rightarrow> book \<Rightarrow> unit outcome \<times> book" where
  "handle_locked m s =
     (let d = get_data m in
      if msg_type m = Some ''snapshot'' then
        (case parse_levels (get_b d) of
           Inl e \<Rightarrow> (Raised e, s)
         | Inr bs \<Rightarrow>
             (case parse_levels (get_a d) of
                Inl e \<Rightarrow> (Raised e, s\<lparr>bids := bs\<rparr>)
              | Inr as \<Rightarrow> (Returned (), s\<lparr>bids := bs, asks := as\<rparr>)))
      else if msg_type m = Some ''delta'' then
        update_order_book (get_b d) (get_a d) s
      else (Returned (), logger Warning_unknown_type s))"

definition handle_message :: "message \<Rightarrow> book \<Rightarrow> unit outcome \<times> book" where
  "handle_message m s =
     (let s0 = logger Info_received s in
      if not_data (get_data m) then (Returned (), logger Warning_empty_data s0)
      else (case with_lock (handle_locked m) s0 of
              (Returned u, s1) \<Rightarrow>
                (Returned (), logger (Info_updated (length (bids s1)) (length (asks s1))) s1)
            | (r, s1) \<Rightarrow> (r, s1)))"

subsection \<open>\<open>get_order_book\<close>\<close>

text \<open>The two data frames are the two lists, read under the lock.\<close>

definition get_order_book :: "book \<Rightarrow> (level list \<times> level list) outcome \<times> book" where
  "get_order_book s =
     with_lock (\<lambda>s. (Returned (bids s, asks s),
                     logger (Info_returning (length (bids s)) (length (asks s))) s)) s"

subsection \<open>The invariants of a side\<close>

text \<open>Bids strictly descending by price, asks strictly ascending; at most \<open>d\<close> levels.\<close>

definition side_sorted :: "side \<Rightarrow> level list \<Rightarrow> bool" where
  "side_sorted sd xs =
     (case sd of Bids \<Rightarrow> sorted_wrt (>) (map fst xs) | Asks \<Rightarrow> sorted_wrt (<) (map fst xs))"

definition side_inv :: "int \<Rightarrow> side \<Rightarrow> level list \<Rightarrow> bool" where
  "side_inv d sd xs \<longleftrightarrow> side_sorted sd xs \<and> int (length xs) \<le> d"

definition book_inv :: "book \<Rightarrow> bool" where
  "book_inv s \<longleftrightarrow> side_inv (depth s) Bids (bids s) \<and> side_inv (depth s) Asks (asks s)"

text \<open>A book with two levels on each side, for the examples.\<close>

definition ex_book :: book where
  "ex_book = \<lparr>depth = 50, bids = [(100, 2), (99, 1)], asks = [(101, 5), (102, 1)],
     lock = False, logged = [Info_initialized]\<rparr>"

subsection \<open>Sequences of calls\<close>

text \<open>
  The calls that apply feed data to a book: \<open>handle_message\<close>, the callback of the
  stream, and \<open>_update_order_book\<close> called on its own. A thread that blocks runs no further
  call. After a call that raised, the book is as the call left it, and the next call runs
  on that book (whether the caller goes on after an exception is up to the caller; going
  on reaches the most states).
\<close>

datatype call =
    Handle_message message
  | Update_order_book "(token \<times> token) list" "(token \<times> token) list"

fun exec_call :: "call \<Rightarrow> book \<Rightarrow> unit outcome \<times> book" where
  "exec_call (Handle_message m) s = handle_message m s"
| "exec_call (Update_order_book bs as) s = update_order_book bs as s"

fun run :: "call list \<Rightarrow> book \<Rightarrow> book" where
  "run [] s = s"
| "run (c # cs) s =
     (case exec_call c s of
        (Blocked, s') \<Rightarrow> s'
      | (r, s') \<Rightarrow> run cs s')"



text \<open>Snapshot messages as the exchange sends them, with both sides and the keys
  \<open>"s"\<close>, \<open>"u"\<close> and \<open>"seq"\<close>, and the messages of the examples.\<close>

definition snapshot_msg :: "(token \<times> token) list \<Rightarrow> (token \<times> token) list \<Rightarrow> message" where
  "snapshot_msg bs as =
     \<lparr>msg_type = Some ''snapshot'',
      msg_data = Some \<lparr>data_b = Some bs, data_a = Some as, data_other = [''s'', ''u'', ''seq'']\<rparr>\<rparr>"

definition snap_three :: message where
  "snap_three = snapshot_msg [(Decimal 100, Decimal 1), (Decimal 99, Decimal 1), (Decimal 98, Decimal 1)] []"


definition snap_two :: message where
  "snap_two = snapshot_msg [(Decimal 100, Decimal 1), (Decimal 99, Decimal 1)] [(Decimal 101, Decimal 2)]"

definition two_calls :: "call list" where
  "two_calls = [Handle_message snap_two, Update_order_book [(Decimal 101, Decimal 1)] [(Decimal 101, Decimal 0)]]"

text \<open>
  Quantities. A call keeps the stored quantities positive when the quantities of a
  snapshot side that parses are positive and the quantities that \<open>_update_order_book\<close>
  is given are not negative.
\<close>

definition positive_side :: "level list \<Rightarrow> bool" where
  "positive_side xs = list_all (\<lambda>l. 0 < snd l) xs"

definition book_positive :: "book \<Rightarrow> bool" where
  "book_positive s \<longleftrightarrow> positive_side (bids s) \<and> positive_side (asks s)"

definition positive_snapshot_side :: "(token \<times> token) list \<Rightarrow> bool" where
  "positive_snapshot_side ps =
     (case parse_levels ps of Inl e \<Rightarrow> True | Inr ls \<Rightarrow> positive_side ls)"

definition nonneg_quantities :: "(token \<times> token) list \<Rightarrow> bool" where
  "nonneg_quantities ps =
     list_all (\<lambda>(price, quantity). case float_py quantity of Inl e \<Rightarrow> True | Inr q \<Rightarrow> 0 \<le> q) ps"

fun positive_call :: "call \<Rightarrow> bool" where
  "positive_call (Handle_message m) =
     (msg_type m = Some ''snapshot'' \<longrightarrow>
        positive_snapshot_side (get_b (get_data m)) \<and> positive_snapshot_side (get_a (get_data m)))"
| "positive_call (Update_order_book bs as) = (nonneg_quantities bs \<and> nonneg_quantities as)"

definition snap_zero :: message where
  "snap_zero = snapshot_msg [(Decimal 100, Decimal 0)] []"

definition snap_one :: message where
  "snap_one = snapshot_msg [(Decimal 100, Decimal 1)] []"

text \<open>A list of pairs holds a token that \<open>float()\<close> rejects.\<close>

definition malformed_in :: "(token \<times> token) list \<Rightarrow> bool" where
  "malformed_in ps = list_ex (\<lambda>(price, quantity). price = Malformed \<or> quantity = Malformed) ps"

definition snap_empty :: message where
  "snap_empty = snapshot_msg [] []"

definition no_data_msg :: message where
  "no_data_msg = \<lparr>msg_type = Some ''snapshot'', msg_data = Some empty_data\<rparr>"


definition snap_bad_bid_only :: message where
  "snap_bad_bid_only =
     \<lparr>msg_type = Some ''snapshot'',
      msg_data = Some \<lparr>data_b = Some [(Malformed, Decimal 1)], data_a = None, data_other = [''s'']\<rparr>\<rparr>"

definition snap_bids_only :: message where
  "snap_bids_only =
     \<lparr>msg_type = Some ''snapshot'',
      msg_data = Some \<lparr>data_b = Some [(Decimal 105, Decimal 3)], data_a = None, data_other = [''s'']\<rparr>\<rparr>"

section \<open>Properties\<close>

lemmas book_eval = book_init_def handle_message_def
      handle_locked_def with_lock_def logger_def not_data_def get_data_def get_b_def get_a_def
      update_order_book_def update_side_def sorted_py_def slice_to_def snapshot_msg_def

subsection \<open>The steps of \<open>_update_side\<close>\<close>








lemma strict_desc_iff: "sorted_wrt (>) (l::rat list) \<longleftrightarrow> sorted_wrt (\<ge>) l \<and> distinct l"
  by (induction l) (auto simp: less_le)




lemma slice_to_id: "int (length xs) \<le> d \<Longrightarrow> slice_to d xs = xs"
  by (simp add: slice_to_def)

lemma side_sorted_distinct: "side_sorted sd xs \<Longrightarrow> distinct (map fst xs)"
  by (cases sd) (simp_all add: side_sorted_def strict_desc_iff strict_sorted_iff)

lemma sorted_py_id: "side_sorted sd xs \<Longrightarrow> sorted_py (sd = Bids) xs = xs"
proof (cases sd)
  case Bids
  assume "side_sorted sd xs"
  with Bids have "sorted_wrt (\<lambda>x y. y \<le> x) (map fst xs)"
    by (simp add: side_sorted_def strict_desc_iff)
  then have "sorted (map fst (rev xs))"
    by (simp add: rev_map [symmetric] sorted_wrt_rev)
  then have "sort_key fst (rev xs) = rev xs"
    by (rule sort_key_id_if_sorted)
  with Bids show ?thesis by (simp add: sorted_py_def)
next
  case Asks
  assume "side_sorted sd xs"
  with Asks have "sorted (map fst xs)"
    by (simp add: side_sorted_def strict_sorted_iff)
  then have "sort_key fst xs = xs"
    by (rule sort_key_id_if_sorted)
  with Asks show ?thesis by (simp add: sorted_py_def)
qed

lemma filter_absent: "p \<notin> fst ` set xs \<Longrightarrow> filter (\<lambda>l. fst l \<noteq> p) xs = xs"
  by (induction xs) auto

lemma scan_side_zero:
  "distinct (map fst xs) \<Longrightarrow> scan_side p 0 xs = filter (\<lambda>l. fst l \<noteq> p) xs"
  by (induction xs) (auto simp: filter_absent)

lemma length_filter_present:
  "distinct (map fst xs) \<Longrightarrow> p \<in> fst ` set xs \<Longrightarrow>
   Suc (length (filter (\<lambda>l. fst l \<noteq> p) xs)) = length xs"
  by (induction xs) (auto simp: filter_absent)

lemma side_sorted_filter: "side_sorted sd xs \<Longrightarrow> side_sorted sd (filter P xs)"
  by (cases sd) (simp_all add: side_sorted_def sorted_wrt_map sorted_wrt_filter)

lemma update_side_zero:
  assumes "side_inv (depth s) sd (get_side sd s)"
  shows "update_side sd p 0 s = set_side sd (filter (\<lambda>l. fst l \<noteq> p) (get_side sd s)) s"
proof -
  let ?xs = "get_side sd s" and ?ys = "filter (\<lambda>l. fst l \<noteq> p) (get_side sd s)"
  from assms have srt: "side_sorted sd ?xs" and len: "int (length ?xs) \<le> depth s"
    by (simp_all add: side_inv_def)
  have scan: "scan_side p 0 ?xs = ?ys"
    using srt by (simp add: scan_side_zero side_sorted_distinct)
  have sort: "sorted_py (sd = Bids) ?ys = ?ys"
    using srt by (simp add: sorted_py_id side_sorted_filter)
  have "int (length ?ys) \<le> int (length ?xs)" by simp
  with len have slice: "slice_to (depth s) ?ys = ?ys"
    by (intro slice_to_id) linarith
  show ?thesis
    unfolding update_side_def Let_def scan sort
    using slice by (cases sd) simp_all
qed

subsection \<open>Single level updates\<close>

text \<open>
  C3. On a side that is strictly ordered by price and holds at most \<open>depth\<close> levels, the
  level update with quantity 0 for a price present in the side removes exactly that level
  (the other levels stay, in order, and the side is one level shorter), and the update
  with quantity 0 for a price absent from the side leaves the whole book unchanged.
\<close>

theorem zero_quantity_delta:
  assumes "side_inv (depth s) sd (get_side sd s)"
  shows "(p \<in> fst ` set (get_side sd s) \<longrightarrow>
            update_side sd p 0 s = set_side sd (filter (\<lambda>l. fst l \<noteq> p) (get_side sd s)) s
          \<and> p \<notin> fst ` set (get_side sd (update_side sd p 0 s))
          \<and> Suc (length (get_side sd (update_side sd p 0 s))) = length (get_side sd s))
       \<and> (p \<notin> fst ` set (get_side sd s) \<longrightarrow> update_side sd p 0 s = s)"
proof (intro conjI impI)
  show "update_side sd p 0 s = set_side sd (filter (\<lambda>l. fst l \<noteq> p) (get_side sd s)) s"
    using assms by (rule update_side_zero)
next
  show "p \<notin> fst ` set (get_side sd (update_side sd p 0 s))"
    unfolding update_side_zero [OF assms] by (cases sd) auto
next
  assume "p \<in> fst ` set (get_side sd s)"
  moreover from assms have "distinct (map fst (get_side sd s))"
    by (auto simp: side_inv_def dest: side_sorted_distinct)
  ultimately have "Suc (length (filter (\<lambda>l. fst l \<noteq> p) (get_side sd s))) = length (get_side sd s)"
    by (intro length_filter_present)
  then show "Suc (length (get_side sd (update_side sd p 0 s))) = length (get_side sd s)"
    unfolding update_side_zero [OF assms] by (cases sd) simp_all
next
  assume "p \<notin> fst ` set (get_side sd s)"
  then have "filter (\<lambda>l. fst l \<noteq> p) (get_side sd s) = get_side sd s"
    by (rule filter_absent)
  then show "update_side sd p 0 s = s"
    unfolding update_side_zero [OF assms] by (cases sd) simp_all
qed

theorem zero_quantity_delta_witness:
  "side_inv (depth ex_book) Bids (get_side Bids ex_book)
   \<and> update_side Bids 99 0 ex_book = ex_book\<lparr>bids := [(100, 2)]\<rparr>
   \<and> update_side Bids 98 0 ex_book = ex_book"
proof -
  have h: "side_inv (depth ex_book) Bids (get_side Bids ex_book)"
    by (simp add: ex_book_def side_inv_def side_sorted_def)
  have p: "(99::rat) \<in> fst ` set (get_side Bids ex_book)"
    by (simp add: ex_book_def)
  have a: "(98::rat) \<notin> fst ` set (get_side Bids ex_book)"
    by (simp add: ex_book_def)
  from zero_quantity_delta [OF h, of 99] p
  have "update_side Bids 99 0 ex_book = ex_book\<lparr>bids := [(100, 2)]\<rparr>"
    by (simp add: ex_book_def)
  moreover from zero_quantity_delta [OF h, of 98] a
  have "update_side Bids 98 0 ex_book = ex_book" by simp
  ultimately show ?thesis using h by simp
qed



subsection \<open>The invariants along a sequence of calls\<close>

lemma book_inv_lock [simp]: "book_inv (s\<lparr>lock := b\<rparr>) = book_inv s"
  by (simp add: book_inv_def)

lemma book_inv_logger [simp]: "book_inv (logger e s) = book_inv s"
  by (simp add: book_inv_def logger_def)

lemma depth_update_side [simp]: "depth (update_side sd p q s) = depth s"
  by (cases sd) (simp_all add: update_side_def Let_def)

lemma get_side_update_side:
  "get_side sd' (update_side sd p q s) =
     (if sd' = sd then slice_to (depth s) (sorted_py (sd = Bids) (scan_side p q (get_side sd s)))
      else get_side sd' s)"
  by (cases sd; cases sd') (simp_all add: update_side_def Let_def)






lemma with_lock_preserves:
  assumes body: "\<And>t. Q t \<Longrightarrow> Q (snd (body t))"
    and lock: "\<And>t b. Q (t\<lparr>lock := b\<rparr>) = Q t"
    and s: "Q s"
  shows "Q (snd (with_lock body s))"
proof (cases "lock s")
  case True
  with s show ?thesis by (simp add: with_lock_def)
next
  case False
  have "Q (snd (body (s\<lparr>lock := True\<rparr>)))"
    using s by (intro body) (simp add: lock)
  with False show ?thesis
    by (cases "body (s\<lparr>lock := True\<rparr>)") (simp add: with_lock_def lock split: outcome.splits)
qed


lemma depth_update_levels [simp]: "depth (snd (update_levels sd ps s)) = depth s"
  by (induction ps arbitrary: s) (auto split: sum.splits)


lemma depth_with_lock:
  assumes "\<And>t. depth (snd (body t)) = depth t"
  shows "depth (snd (with_lock body s)) = depth s"
  using with_lock_preserves [where Q = "\<lambda>t. depth t = depth s" and body = body and s = s] assms
  by simp

lemma depth_update_order_book [simp]: "depth (snd (update_order_book bs as s)) = depth s"
  unfolding update_order_book_def
proof (rule depth_with_lock)
  fix t
  obtain r t1 where r: "update_levels Bids bs t = (r, t1)" by (cases "update_levels Bids bs t")
  have "depth t1 = depth t" using depth_update_levels [of Bids bs t] r by simp
  then show "depth (snd (case update_levels Bids bs t of
                          (Returned u, s1) \<Rightarrow> update_levels Asks as s1
                        | (r, s1) \<Rightarrow> (r, s1))) = depth t"
    using depth_update_levels [of Asks as t1] by (simp add: r split: outcome.splits)
qed

lemma depth_handle_locked [simp]: "depth (snd (handle_locked m s)) = depth s"
  by (simp add: handle_locked_def Let_def logger_def split: sum.splits)

lemma depth_logger [simp]: "depth (logger e s) = depth s"
  by (simp add: logger_def)

lemma depth_handle_message [simp]: "depth (snd (handle_message m s)) = depth s"
proof -
  have "depth (snd (with_lock (handle_locked m) (logger Info_received s))) = depth s"
    by (simp add: depth_with_lock)
  then show ?thesis
    by (cases "with_lock (handle_locked m) (logger Info_received s)")
       (simp add: handle_message_def Let_def split: outcome.splits)
qed


lemma depth_exec_call [simp]: "depth (snd (exec_call c s)) = depth s"
  by (cases c) simp_all



lemma depth_run [simp]: "depth (run cs s) = depth s"
proof (induction cs arbitrary: s)
  case Nil
  then show ?case by simp
next
  case (Cons c cs)
  obtain r s' where r: "exec_call c s = (r, s')" by (cases "exec_call c s")
  have "depth s' = depth s" using depth_exec_call [of c s] r by simp
  with Cons.IH [of s'] show ?case by (simp add: r split: outcome.splits)
qed





subsection \<open>Positive quantities along a sequence of calls\<close>

lemma positive_scan_side:
  "0 \<le> q \<Longrightarrow> positive_side xs \<Longrightarrow> positive_side (scan_side p q xs)"
  by (induction xs) (auto simp: positive_side_def)

lemma positive_sorted_py: "positive_side (sorted_py r xs) = positive_side xs"
  by (simp add: positive_side_def sorted_py_def list_all_iff)

lemma positive_slice_to: "positive_side xs \<Longrightarrow> positive_side (slice_to d xs)"
  by (auto simp: positive_side_def slice_to_def list_all_iff dest: in_set_takeD)

lemma book_positive_update_side:
  assumes "0 \<le> q" and "book_positive s"
  shows "book_positive (update_side sd p q s)"
proof -
  from assms(2) have "positive_side (get_side sd s)"
    by (cases sd) (simp_all add: book_positive_def)
  with assms(1) have "positive_side (scan_side p q (get_side sd s))"
    by (rule positive_scan_side)
  then have "positive_side (slice_to (depth s) (sorted_py (sd = Bids) (scan_side p q (get_side sd s))))"
    by (simp add: positive_slice_to positive_sorted_py)
  with assms(2) show ?thesis
    using get_side_update_side [of Bids sd p q s] get_side_update_side [of Asks sd p q s]
    by (cases sd) (simp_all add: book_positive_def)
qed

lemma book_positive_update_levels:
  "nonneg_quantities ps \<Longrightarrow> book_positive s \<Longrightarrow> book_positive (snd (update_levels sd ps s))"
proof (induction ps arbitrary: s)
  case Nil
  then show ?case by simp
next
  case (Cons x ps)
  obtain price quantity where x: "x = (price, quantity)" by (cases x)
  from Cons.prems(1) have ps: "nonneg_quantities ps"
    by (simp add: nonneg_quantities_def)
  show ?case
  proof (cases "float_py price")
    case (Inl e)
    with Cons.prems(2) show ?thesis by (simp add: x)
  next
    case p: (Inr p)
    show ?thesis
    proof (cases "float_py quantity")
      case (Inl e)
      with Cons.prems(2) p show ?thesis by (simp add: x)
    next
      case q: (Inr q)
      with Cons.prems(1) have "0 \<le> q" by (simp add: nonneg_quantities_def x)
      then have "book_positive (update_side sd p q s)"
        using Cons.prems(2) by (rule book_positive_update_side)
      with Cons.IH [OF ps] p q show ?thesis by (simp add: x)
    qed
  qed
qed

lemma book_positive_lock [simp]: "book_positive (s\<lparr>lock := b\<rparr>) = book_positive s"
  by (simp add: book_positive_def)

lemma book_positive_logger [simp]: "book_positive (logger e s) = book_positive s"
  by (simp add: book_positive_def logger_def)

lemma book_positive_update_order_book:
  assumes "nonneg_quantities bs" and "nonneg_quantities as" and "book_positive s"
  shows "book_positive (snd (update_order_book bs as s))"
  unfolding update_order_book_def
proof (rule with_lock_preserves [where Q = book_positive])
  fix t
  assume t: "book_positive t"
  obtain r t1 where r: "update_levels Bids bs t = (r, t1)" by (cases "update_levels Bids bs t")
  from book_positive_update_levels [OF assms(1) t, of Bids] r have t1: "book_positive t1" by simp
  show "book_positive (snd (case update_levels Bids bs t of
                        (Returned u, s1) \<Rightarrow> update_levels Asks as s1
                      | (r, s1) \<Rightarrow> (r, s1)))"
    using t1 book_positive_update_levels [OF assms(2) t1, of Asks]
    by (simp add: r split: outcome.splits)
qed (simp_all add: assms(3))

lemma update_order_book_locked: "lock s \<Longrightarrow> update_order_book bs as s = (Blocked, s)"
  by (simp add: update_order_book_def with_lock_def)

lemma book_positive_handle_locked:
  assumes "book_positive s" and "positive_call (Handle_message m)" and "lock s"
  shows "book_positive (snd (handle_locked m s))"
proof (cases "msg_type m = Some ''snapshot''")
  case True
  with assms show ?thesis
    by (auto simp: handle_locked_def Let_def positive_snapshot_side_def book_positive_def
        split: sum.splits)
next
  case False
  with assms(1,3) show ?thesis
    by (simp add: handle_locked_def Let_def update_order_book_locked)
qed

lemma with_lock_preserves_locked:
  assumes body: "\<And>t. Q t \<Longrightarrow> lock t \<Longrightarrow> Q (snd (body t))"
    and lock: "\<And>t b. Q (t\<lparr>lock := b\<rparr>) = Q t"
    and s: "Q s"
  shows "Q (snd (with_lock body s))"
proof (cases "lock s")
  case True
  with s show ?thesis by (simp add: with_lock_def)
next
  case False
  have "Q (snd (body (s\<lparr>lock := True\<rparr>)))"
    using s by (intro body) (simp_all add: lock)
  with False show ?thesis
    by (cases "body (s\<lparr>lock := True\<rparr>)") (simp add: with_lock_def lock split: outcome.splits)
qed

lemma book_positive_handle_message:
  assumes "book_positive s" and "positive_call (Handle_message m)"
  shows "book_positive (snd (handle_message m s))"
proof -
  have "book_positive (snd (with_lock (handle_locked m) (logger Info_received s)))"
  proof (rule with_lock_preserves_locked [where Q = book_positive])
    fix t
    assume "book_positive t" and "lock t"
    with assms(2) show "book_positive (snd (handle_locked m t))"
      by (simp add: book_positive_handle_locked)
  qed (simp_all add: assms(1))
  then show ?thesis
    using assms(1)
    by (cases "with_lock (handle_locked m) (logger Info_received s)")
       (simp add: handle_message_def Let_def split: outcome.splits)
qed

lemma book_positive_exec_call:
  "book_positive s \<Longrightarrow> positive_call c \<Longrightarrow> book_positive (snd (exec_call c s))"
  by (cases c) (simp_all add: book_positive_handle_message book_positive_update_order_book)

lemma book_positive_run:
  "book_positive s \<Longrightarrow> list_all positive_call cs \<Longrightarrow> book_positive (run cs s)"
proof (induction cs arbitrary: s)
  case Nil
  then show ?case by simp
next
  case (Cons c cs)
  obtain r s' where r: "exec_call c s = (r, s')" by (cases "exec_call c s")
  from Cons.prems have c: "positive_call c" and cs: "list_all positive_call cs"
    by simp_all
  have s': "book_positive s'"
    using book_positive_exec_call [OF Cons.prems(1) c] r by simp
  from Cons.IH [OF s' cs] s' show ?case by (simp add: r split: outcome.splits)
qed

text \<open>
  C2 (as amended). From a freshly created book, after any sequence of \<open>handle_message\<close>
  and \<open>_update_order_book\<close> calls in which the quantities of each snapshot side that parses
  are greater than zero and the quantities given to \<open>_update_order_book\<close> are not
  negative, every level of either side has a quantity greater than zero.
\<close>

theorem quantities_positive:
  assumes "list_all positive_call cs"
  shows "\<forall>l \<in> set (bids (run cs (book_init d))) \<union> set (asks (run cs (book_init d))). 0 < snd l"
proof -
  have "book_positive (book_init d)"
    by (simp add: book_positive_def positive_side_def book_init_def)
  then have "book_positive (run cs (book_init d))"
    using assms by (rule book_positive_run)
  then show ?thesis
    by (auto simp: book_positive_def positive_side_def list_all_iff)
qed

theorem quantities_positive_witness:
  "list_all positive_call two_calls
   \<and> bids (run two_calls (book_init 2)) = [(101, 1), (100, 1)]
   \<and> asks (run two_calls (book_init 2)) = []
   \<and> book_positive (run two_calls (book_init 2))"
proof -
  have c: "list_all positive_call two_calls"
    by (simp add: two_calls_def snap_two_def book_eval positive_snapshot_side_def
        positive_side_def nonneg_quantities_def)
  have r: "bids (run two_calls (book_init 2)) = [(101, 1), (100, 1)]
     \<and> asks (run two_calls (book_init 2)) = []"
    by (simp add: two_calls_def snap_two_def book_eval)
  from quantities_positive [OF c, of 2] have "book_positive (run two_calls (book_init 2))"
    by (simp add: book_positive_def positive_side_def list_all_iff)
  with c r show ?thesis by simp
qed

text \<open>
  The claim as stated fails on a snapshot that carries a quantity of 0, which is stored,
  and on a level update with a negative quantity at a price that is present, which
  overwrites the stored quantity.
\<close>

theorem quantities_positive_counterexample:
  "bids (snd (handle_message snap_zero (book_init 50))) = [(100, 0)]
   \<and> \<not> book_positive (snd (handle_message snap_zero (book_init 50)))
   \<and> bids (snd (update_order_book [(Decimal 100, Decimal (- 1))] []
             (snd (handle_message snap_one (book_init 50))))) = [(100, - 1)]
   \<and> \<not> book_positive (snd (update_order_book [(Decimal 100, Decimal (- 1))] []
             (snd (handle_message snap_one (book_init 50)))))"
  by (simp add: snap_zero_def snap_one_def book_eval book_positive_def positive_side_def)

subsection \<open>What \<open>handle_message\<close> does, by the kind of message\<close>

lemma parse_levels_Inl: "(parse_levels ps = Inl e) \<longleftrightarrow> malformed_in ps"
proof (induction ps)
  case Nil
  then show ?case by (simp add: malformed_in_def)
next
  case (Cons x ps)
  obtain p q where x: "x = (p, q)" by (cases x)
  from Cons show ?case
    by (cases p; cases q; cases e) (auto simp: x malformed_in_def split: sum.splits)
qed

lemma parse_levels_Inr: "\<not> malformed_in ps \<Longrightarrow> \<exists>ls. parse_levels ps = Inr ls"
  using parse_levels_Inl [of ps ValueError] by (cases "parse_levels ps") (auto intro: error.exhaust)

lemma handle_message_snapshot:
  assumes "msg_type m = Some ''snapshot''" and "\<not> not_data (get_data m)" and "\<not> lock s"
  shows "handle_message m s =
     (case parse_levels (get_b (get_data m)) of
        Inl e \<Rightarrow> (Raised e, logger Info_received s)
      | Inr bs \<Rightarrow>
          (case parse_levels (get_a (get_data m)) of
             Inl e \<Rightarrow> (Raised e, (logger Info_received s)\<lparr>bids := bs\<rparr>)
           | Inr as \<Rightarrow>
               (Returned (),
                logger (Info_updated (length bs) (length as))
                  ((logger Info_received s)\<lparr>bids := bs, asks := as\<rparr>))))"
  using assms
  by (simp add: handle_message_def handle_locked_def with_lock_def logger_def Let_def
      split: sum.splits)

lemma handle_message_locked:
  "\<not> not_data (get_data m) \<Longrightarrow> lock s \<Longrightarrow> handle_message m s = (Blocked, logger Info_received s)"
  by (simp add: handle_message_def with_lock_def logger_def Let_def)

lemma handle_message_not_data:
  "not_data (get_data m) \<Longrightarrow>
   handle_message m s = (Returned (), logger Warning_empty_data (logger Info_received s))"
  by (simp add: handle_message_def Let_def)

text \<open>
  The delta branch calls \<open>_update_order_book\<close> with the lock held, and
  \<open>_update_order_book\<close> acquires the same lock again: the call never returns, applies
  nothing and leaves the lock held, so that a later \<open>get_order_book\<close> blocks as well.
\<close>

lemma handle_message_delta:
  assumes "msg_type m = Some ''delta''" and "\<not> not_data (get_data m)" and "\<not> lock s"
  shows "handle_message m s = (Blocked, (logger Info_received s)\<lparr>lock := True\<rparr>)"
  using assms
  by (simp add: handle_message_def handle_locked_def with_lock_def update_order_book_def
      logger_def Let_def)

lemma get_order_book_locked: "lock s \<Longrightarrow> get_order_book s = (Blocked, s)"
  by (simp add: get_order_book_def with_lock_def)

subsection \<open>Tokens that do not parse in \<open>_update_order_book\<close>\<close>






subsection \<open>Snapshots\<close>

text \<open>
  C5. For every snapshot message and every starting state, handling the message a second
  time right after the first leaves the same bids, asks, depth and lock as handling it
  once, with the same outcome.
\<close>

theorem snapshot_idempotent:
  assumes "msg_type m = Some ''snapshot''"
  shows "fst (handle_message m (snd (handle_message m s))) = fst (handle_message m s)
       \<and> bids (snd (handle_message m (snd (handle_message m s)))) = bids (snd (handle_message m s))
       \<and> asks (snd (handle_message m (snd (handle_message m s)))) = asks (snd (handle_message m s))
       \<and> depth (snd (handle_message m (snd (handle_message m s)))) = depth (snd (handle_message m s))
       \<and> lock (snd (handle_message m (snd (handle_message m s)))) = lock (snd (handle_message m s))"
proof (cases "not_data (get_data m)")
  case True
  then show ?thesis by (simp add: handle_message_not_data logger_def)
next
  case data: False
  show ?thesis
  proof (cases "lock s")
    case True
    with data show ?thesis by (simp add: handle_message_locked logger_def)
  next
    case False
    then have free: "\<not> lock (snd (handle_message m s))"
      by (simp add: handle_message_snapshot [OF assms data False] logger_def split: sum.splits)
    show ?thesis
      unfolding handle_message_snapshot [OF assms data free]
      by (simp add: handle_message_snapshot [OF assms data False] logger_def split: sum.splits)
  qed
qed

theorem snapshot_idempotent_witness:
  "msg_type snap_two = Some ''snapshot''
   \<and> bids (snd (handle_message snap_two (snd (handle_message snap_two ex_book)))) = [(100, 1), (99, 1)]
   \<and> bids (snd (handle_message snap_two ex_book)) = [(100, 1), (99, 1)]
   \<and> asks (snd (handle_message snap_two (snd (handle_message snap_two ex_book)))) = [(101, 2)]
   \<and> asks (snd (handle_message snap_two ex_book)) = [(101, 2)]"
proof -
  have t: "msg_type snap_two = Some ''snapshot''"
    by (simp add: snap_two_def snapshot_msg_def)
  have 1: "bids (snd (handle_message snap_two ex_book)) = [(100, 1), (99, 1)]
      \<and> asks (snd (handle_message snap_two ex_book)) = [(101, 2)]"
    by (simp add: snap_two_def ex_book_def book_eval)
  from snapshot_idempotent [OF t, of ex_book] t 1 show ?thesis by simp
qed

text \<open>
  C10 (as amended). A snapshot message whose data object is not empty, handled with the
  lock free: when the data has no \<open>"b"\<close> entry the bids become the empty list, and when
  it has no \<open>"a"\<close> entry and every bid token parses the asks become the empty list.
\<close>

theorem one_sided_snapshot:
  assumes "msg_type m = Some ''snapshot''" and "\<not> not_data (get_data m)" and "\<not> lock s"
  shows "(data_b (get_data m) = None \<longrightarrow> bids (snd (handle_message m s)) = [])
       \<and> (data_a (get_data m) = None \<and> \<not> malformed_in (get_b (get_data m)) \<longrightarrow>
            asks (snd (handle_message m s)) = [])"
proof (intro conjI impI)
  assume "data_b (get_data m) = None"
  then have "parse_levels (get_b (get_data m)) = Inr []"
    by (simp add: get_b_def)
  then show "bids (snd (handle_message m s)) = []"
    by (simp add: handle_message_snapshot [OF assms] logger_def split: sum.splits)
next
  assume a: "data_a (get_data m) = None \<and> \<not> malformed_in (get_b (get_data m))"
  then obtain bs where bs: "parse_levels (get_b (get_data m)) = Inr bs"
    using parse_levels_Inr by blast
  from a have "parse_levels (get_a (get_data m)) = Inr []"
    by (simp add: get_a_def)
  with bs show "asks (snd (handle_message m s)) = []"
    by (simp add: handle_message_snapshot [OF assms] logger_def)
qed

theorem one_sided_snapshot_witness:
  "msg_type snap_bids_only = Some ''snapshot'' \<and> \<not> not_data (get_data snap_bids_only)
   \<and> \<not> lock ex_book
   \<and> data_a (get_data snap_bids_only) = None \<and> \<not> malformed_in (get_b (get_data snap_bids_only))
   \<and> asks ex_book = [(101, 5), (102, 1)]
   \<and> asks (snd (handle_message snap_bids_only ex_book)) = []"
proof -
  have t: "msg_type snap_bids_only = Some ''snapshot''"
    by (simp add: snap_bids_only_def)
  have d: "\<not> not_data (get_data snap_bids_only)"
    by (simp add: snap_bids_only_def get_data_def not_data_def)
  have l: "\<not> lock ex_book" by (simp add: ex_book_def)
  have a: "data_a (get_data snap_bids_only) = None"
    by (simp add: snap_bids_only_def get_data_def)
  have b: "\<not> malformed_in (get_b (get_data snap_bids_only))"
    by (simp add: snap_bids_only_def get_data_def get_b_def malformed_in_def)
  from one_sided_snapshot [OF t d l] a b
  have "asks (snd (handle_message snap_bids_only ex_book)) = []" by simp
  with t d l a b show ?thesis by (simp add: ex_book_def)
qed

text \<open>
  The claim as stated fails when the \<open>"a"\<close> entry is missing and a bid token does not
  parse: the call raises before the asks are assigned, and they stay.
\<close>

theorem one_sided_snapshot_counterexample:
  "msg_type snap_bad_bid_only = Some ''snapshot'' \<and> \<not> not_data (get_data snap_bad_bid_only)
   \<and> data_a (get_data snap_bad_bid_only) = None
   \<and> asks (snd (handle_message snap_bad_bid_only ex_book)) = [(101, 5), (102, 1)]"
  by (simp add: snap_bad_bid_only_def ex_book_def book_eval)

text \<open>
  C7 (as amended). For every message whose data object is absent or empty,
  \<open>handle_message\<close> returns without taking the lock and changes nothing but the log, to
  which it adds the warning for empty data; the next message is handled from the same
  book.
\<close>

theorem empty_data_no_mutation:
  assumes "not_data (get_data m)"
  shows "handle_message m s =
           (Returned (), s\<lparr>logged := logged s @ [Info_received, Warning_empty_data]\<rparr>)"
  using assms by (simp add: handle_message_not_data logger_def)

theorem empty_data_no_mutation_witness:
  "not_data (get_data no_data_msg)
   \<and> handle_message no_data_msg ex_book =
       (Returned (), ex_book\<lparr>logged := [Info_initialized, Info_received, Warning_empty_data]\<rparr>)"
proof -
  have h: "not_data (get_data no_data_msg)"
    by (simp add: no_data_msg_def get_data_def empty_data_def not_data_def)
  from empty_data_no_mutation [OF h, of ex_book] h show ?thesis
    by (simp add: ex_book_def)
qed

text \<open>
  The claim as stated fails on a snapshot whose data object is not empty and whose two
  sequences are empty: both sides are replaced by the empty list, and no warning is
  logged.
\<close>

theorem empty_sides_counterexample:
  "get_b (get_data snap_empty) = [] \<and> get_a (get_data snap_empty) = []
   \<and> handle_message snap_empty ex_book =
       (Returned (),
        ex_book\<lparr>bids := [], asks := [],
                logged := [Info_initialized, Info_received, Info_updated 0 0]\<rparr>)
   \<and> bids ex_book = [(100, 2), (99, 1)] \<and> asks ex_book = [(101, 5), (102, 1)]"
  by (simp add: snap_empty_def ex_book_def book_eval)

subsection \<open>The depth scenario\<close>

text \<open>
  C6 (as amended). With depth 2, the snapshot with bids 100, 99, 98 (quantity 1 each) is
  stored whole, and read back as three levels. A level update (97, 1) applied after it by
  \<open>_update_order_book\<close> leaves the bids 100 and 99: 97 sorts below them and is cut off,
  and so is 98. A level update (101, 1), applied after that or right after the snapshot,
  leaves the bids 101 and 100: it appears in the read and 99 is evicted.
\<close>

theorem depth_eviction_scenario:
  "fst (get_order_book (snd (handle_message snap_three (book_init 2))))
     = Returned ([(100, 1), (99, 1), (98, 1)], [])
   \<and> fst (get_order_book (snd (update_order_book [(Decimal 97, Decimal 1)] []
            (snd (handle_message snap_three (book_init 2))))))
     = Returned ([(100, 1), (99, 1)], [])
   \<and> fst (get_order_book (snd (update_order_book [(Decimal 101, Decimal 1)] []
            (snd (update_order_book [(Decimal 97, Decimal 1)] []
              (snd (handle_message snap_three (book_init 2))))))))
     = Returned ([(101, 1), (100, 1)], [])
   \<and> fst (get_order_book (snd (update_order_book [(Decimal 101, Decimal 1)] []
            (snd (handle_message snap_three (book_init 2))))))
     = Returned ([(101, 1), (100, 1)], [])"
  by (simp add: snap_three_def book_eval get_order_book_def)

text \<open>The claim as stated fails at its first step: the snapshot is not cut to the depth.\<close>

theorem depth_eviction_counterexample:
  "bids (snd (handle_message snap_three (book_init 2))) \<noteq> [(100, 1), (99, 1)]"
  by (simp add: snap_three_def book_eval)

subsection \<open>Tokens that do not parse\<close>

lemma lock_update_side [simp]: "lock (update_side sd p q s) = lock s"
  by (cases sd) (simp_all add: update_side_def Let_def)

lemma lock_update_levels [simp]: "lock (snd (update_levels sd ps s)) = lock s"
proof (induction ps arbitrary: s)
  case Nil
  show ?case by simp
next
  case (Cons x ps)
  obtain p q where x: "x = (p, q)" by (cases x)
  show ?case
    by (cases "float_py p"; cases "float_py q") (simp_all add: x Cons.IH)
qed







end
